theory Spec2Isabelle
  imports Main "HOL-Library.Sublist" "HOL-Library.Char_ord"
begin

section \<open>Strings as the analyzer uses them\<close>

text \<open>
  The analyzer (\<^verbatim>\<open>src/analyzer/JavaClassAnalyzer.ts\<close>) works on JavaScript strings.
  A string is modelled as a \<^typ>\<open>string\<close>; a \<^typ>\<open>char\<close> stands for one code unit
  below 256, which covers the ASCII output of \<^verbatim>\<open>javap\<close>. The helpers below are the
  string methods the analyzer calls, with the results JavaScript gives.
\<close>

definition isSpace :: "char \<Rightarrow> bool" where
  \<comment> \<open>what \<^verbatim>\<open>trim()\<close> strips and the regex class \<^verbatim>\<open>\s\<close> matches, below code unit 256\<close>
  "isSpace c \<longleftrightarrow>
     c \<in> set [CHR 0x09, CHR 0x0A, CHR 0x0B, CHR 0x0C, CHR 0x0D, CHR 0x20, CHR 0xA0]"

definition isDigit :: "char \<Rightarrow> bool" where
  \<comment> \<open>the regex class \<^verbatim>\<open>\d\<close>\<close>
  "isDigit c \<longleftrightarrow> CHR ''0'' \<le> c \<and> c \<le> CHR ''9''"

definition isLetter :: "char \<Rightarrow> bool" where
  "isLetter c \<longleftrightarrow> (CHR ''a'' \<le> c \<and> c \<le> CHR ''z'') \<or> (CHR ''A'' \<le> c \<and> c \<le> CHR ''Z'')"

definition isWord :: "char \<Rightarrow> bool" where
  \<comment> \<open>the regex class \<^verbatim>\<open>\w\<close>\<close>
  "isWord c \<longleftrightarrow> isLetter c \<or> isDigit c \<or> c = CHR ''_''"

definition isLineTerminator :: "char \<Rightarrow> bool" where
  \<comment> \<open>what the regex \<^verbatim>\<open>.\<close> does not match\<close>
  "isLineTerminator c \<longleftrightarrow> c = CHR 0x0A \<or> c = CHR 0x0D"

definition trim :: "string \<Rightarrow> string" where
  "trim s = rev (dropWhile isSpace (rev (dropWhile isSpace s)))"

definition startsWith :: "string \<Rightarrow> string \<Rightarrow> bool" where
  \<comment> \<open>\<^verbatim>\<open>s.startsWith(p)\<close>\<close>
  "startsWith s p \<longleftrightarrow> prefix p s"

definition includesChar :: "string \<Rightarrow> char \<Rightarrow> bool" where
  \<comment> \<open>\<^verbatim>\<open>s.includes(c)\<close>\<close>
  "includesChar s c \<longleftrightarrow> c \<in> set s"

fun indexOf :: "string \<Rightarrow> char \<Rightarrow> nat option" where
  \<comment> \<open>\<^verbatim>\<open>s.indexOf(c)\<close>; \<^verbatim>\<open>-1\<close> is \<open>None\<close>\<close>
  "indexOf [] c = None"
| "indexOf (x # xs) c = (if x = c then Some 0 else map_option Suc (indexOf xs c))"

definition indexOfFrom :: "string \<Rightarrow> char \<Rightarrow> nat \<Rightarrow> nat option" where
  \<comment> \<open>\<^verbatim>\<open>s.indexOf(c, k)\<close>\<close>
  "indexOfFrom s c k = map_option (\<lambda>i. i + k) (indexOf (drop k s) c)"

definition lastIndexOf :: "string \<Rightarrow> char \<Rightarrow> nat option" where
  \<comment> \<open>\<^verbatim>\<open>s.lastIndexOf(c)\<close>\<close>
  "lastIndexOf s c = map_option (\<lambda>i. length s - 1 - i) (indexOf (rev s) c)"

definition substring :: "string \<Rightarrow> nat \<Rightarrow> nat \<Rightarrow> string" where
  \<comment> \<open>\<^verbatim>\<open>s.substring(a, b)\<close>: the arguments are swapped when \<open>a > b\<close> and clamped to the length\<close>
  "substring s a b = take (max a b - min a b) (drop (min a b) s)"

fun split :: "string \<Rightarrow> char \<Rightarrow> string list" where
  \<comment> \<open>\<^verbatim>\<open>s.split(c)\<close> for a one-character separator; the empty string gives one empty piece\<close>
  "split [] c = [[]]"
| "split (x # xs) c =
     (if x = c then [] # split xs c
      else (case split xs c of [] \<Rightarrow> [[x]] | p # ps \<Rightarrow> (x # p) # ps))"

fun join :: "string list \<Rightarrow> string \<Rightarrow> string" where
  \<comment> \<open>\<^verbatim>\<open>parts.join(sep)\<close>\<close>
  "join [] sep = []"
| "join [p] sep = p"
| "join (p # ps) sep = p @ sep @ join ps sep"

section \<open>Parameter splitting\<close>

text \<open>
  \<^verbatim>\<open>splitParameters\<close>: one pass over the characters with the list of finished
  parameters, the current fragment and the angle-bracket counter. The counter is a
  JavaScript number that is decremented without a check, so it is an \<^typ>\<open>int\<close>.
\<close>

fun splitLoop :: "string \<Rightarrow> string list \<Rightarrow> string \<Rightarrow> int \<Rightarrow> string list" where
  "splitLoop [] params current angleBracketCount =
     (if trim current \<noteq> [] then params @ [trim current] else params)"
| "splitLoop (c # cs) params current angleBracketCount =
     (if c = CHR ''<'' then splitLoop cs params (current @ [c]) (angleBracketCount + 1)
      else if c = CHR ''>'' then splitLoop cs params (current @ [c]) (angleBracketCount - 1)
      else if c = CHR '','' \<and> angleBracketCount = 0
        then splitLoop cs (params @ [trim current]) [] angleBracketCount
      else splitLoop cs params (current @ [c]) angleBracketCount)"

definition splitParameters :: "string \<Rightarrow> string list" where
  "splitParameters paramsStr = splitLoop paramsStr [] [] 0"

definition parseParameterList :: "string \<Rightarrow> string list" where
  \<comment> \<open>the parameter part of \<^verbatim>\<open>parseMethodFromJavap\<close>: the text between the parentheses is
      trimmed, split, and every fragment that is non-empty after trimming is kept\<close>
  "parseParameterList raw =
     (let paramsStr = trim raw
      in if paramsStr = [] then []
         else filter (\<lambda>trimmedParam. trimmedParam \<noteq> []) (map trim (splitParameters paramsStr)))"

text \<open>
  The splitting as the specification words it: the text is cut at each comma met while
  the nesting counter is zero; \<open><\<close> raises the counter and \<open>>\<close> lowers it.
\<close>

fun topLevelFragments :: "int \<Rightarrow> string \<Rightarrow> string list" where
  "topLevelFragments d [] = [[]]"
| "topLevelFragments d (c # cs) =
     (if c = CHR '','' \<and> d = 0 then [] # topLevelFragments d cs
      else (case topLevelFragments
                   (if c = CHR ''<'' then d + 1 else if c = CHR ''>'' then d - 1 else d) cs of
              [] \<Rightarrow> [[c]]
            | f # fs \<Rightarrow> (c # f) # fs))"

section \<open>The data model\<close>

text \<open>
  The interfaces \<^verbatim>\<open>ClassField\<close>, \<^verbatim>\<open>ClassMethod\<close> and \<^verbatim>\<open>ClassAnalysis\<close>. The fields
  \<^verbatim>\<open>name\<close> and \<^verbatim>\<open>modifiers\<close> occur in several interfaces; those of a field and of a
  method carry the interface in their name here, and \<^verbatim>\<open>fields\<close>, a name the record
  package keeps for itself, is \<open>classFields\<close>. The optional \<^verbatim>\<open>superClass\<close> is an
  \<^typ>\<open>string option\<close>, \<^verbatim>\<open>undefined\<close> being \<open>None\<close>.
\<close>

record ClassField =
  fieldName :: string
  fieldType :: string
  fieldModifiers :: "string list"

record ClassMethod =
  name :: string
  returnType :: string
  parameters :: "string list"
  methodModifiers :: "string list"

record ClassAnalysis =
  className :: string
  packageName :: string
  modifiers :: "string list"
  superClass :: "string option"
  interfaces :: "string list"
  classFields :: "ClassField list"
  methods :: "ClassMethod list"

section \<open>Method-signature extraction\<close>

definition modifierWords :: "string list" where
  "modifierWords = [''public'', ''private'', ''protected'', ''static'', ''final'', ''abstract'',
     ''synchronized'', ''native'']"

text \<open>
  The \<^verbatim>\<open>while (true)\<close> loop of \<^verbatim>\<open>parseMethodFromJavap\<close>: the first word of
  \<^verbatim>\<open>modifierWords\<close> that, followed by a space, starts the remaining line is recorded and
  cut off; the loop ends when there is none. It returns the modifiers and \<^verbatim>\<open>startIndex\<close>.
\<close>

function stripModifiers :: "string \<Rightarrow> string list \<Rightarrow> nat \<Rightarrow> string list \<times> nat" where
  "stripModifiers remainingLine mods startIndex =
     (case find (\<lambda>modifier. startsWith remainingLine (modifier @ '' '')) modifierWords of
        None \<Rightarrow> (mods, startIndex)
      | Some modifier \<Rightarrow>
          stripModifiers (drop (length modifier + 1) remainingLine) (mods @ [modifier])
            (startIndex + (length modifier + 1)))"
  by pat_completeness auto
termination
proof (relation "measure (\<lambda>(remainingLine, mods, startIndex). length remainingLine)")
  show "wf (measure (\<lambda>(remainingLine, mods, startIndex). length remainingLine))" by simp
next
  fix remainingLine :: string and mods :: "string list" and startIndex :: nat and modifier
  assume "find (\<lambda>modifier. startsWith remainingLine (modifier @ '' '')) modifierWords = Some modifier"
  then have "startsWith remainingLine (modifier @ '' '')"
    by (auto simp: find_Some_iff)
  then have "length modifier + 1 \<le> length remainingLine"
    by (auto simp: startsWith_def prefix_def)
  then show "((drop (length modifier + 1) remainingLine, mods @ [modifier],
               startIndex + (length modifier + 1)),
              (remainingLine, mods, startIndex))
             \<in> measure (\<lambda>(remainingLine, mods, startIndex). length remainingLine)"
    by simp
qed

declare stripModifiers.simps [simp del]

definition parseMethodFromJavap :: "string \<Rightarrow> ClassMethod option" where
  \<comment> \<open>\<open>None\<close> is the \<^verbatim>\<open>null\<close> result; no statement in the \<^verbatim>\<open>try\<close> block throws\<close>
  "parseMethodFromJavap line =
     (let trimmedLine = trim line;
          (mods, startIndex) = stripModifiers trimmedLine [] 0
      in case indexOf trimmedLine CHR ''('' of
           None \<Rightarrow> None
         | Some parenIndex \<Rightarrow>
            (case indexOfFrom trimmedLine CHR '')'' parenIndex of
               None \<Rightarrow> None
             | Some closeParenIndex \<Rightarrow>
                (let beforeParen = trim (substring trimmedLine startIndex parenIndex)
                 in case lastIndexOf beforeParen CHR '' '' of
                      None \<Rightarrow> None
                    | Some lastSpaceIndex \<Rightarrow>
                        Some \<lparr> name = trim (drop (lastSpaceIndex + 1) beforeParen),
                               returnType = trim (substring beforeParen 0 lastSpaceIndex),
                               parameters = parseParameterList
                                 (substring trimmedLine (parenIndex + 1) closeParenIndex),
                               methodModifiers = mods \<rparr>)))"

section \<open>Declaration extraction\<close>

text \<open>
  \<^verbatim>\<open>parseClassDeclaration\<close> uses four regular expressions. Each is modelled by the scan
  that the regular expression performs.

  \<^verbatim>\<open>/\b(public|private|protected|static|final|abstract|strictfp)\b/g\<close>: every word of
  the list starts and ends with a word character, so \<^verbatim>\<open>\b\<close> in front holds when the
  character before is not a word character (or there is none), and \<^verbatim>\<open>\b\<close> behind when
  the character after is not a word character (or there is none). No word of the list is a
  prefix of another, so at most one alternative matches at a position. After a match the
  search goes on behind it.
\<close>

definition classModifierWords :: "string list" where
  "classModifierWords = [''public'', ''private'', ''protected'', ''static'', ''final'', ''abstract'',
     ''strictfp'']"

definition wordAhead :: "string \<Rightarrow> bool" where
  "wordAhead s = (case s of [] \<Rightarrow> False | c # _ \<Rightarrow> isWord c)"

definition modifierAt :: "string \<Rightarrow> string option" where
  "modifierAt s =
     find (\<lambda>w. startsWith s w \<and> \<not> wordAhead (drop (length w) s)) classModifierWords"

function matchModifiers :: "bool \<Rightarrow> string \<Rightarrow> string list" where
  "matchModifiers afterWord [] = []"
| "matchModifiers afterWord (c # cs) =
     (case (if afterWord then None else modifierAt (c # cs)) of
        Some w \<Rightarrow> w # matchModifiers True (drop (length w) (c # cs))
      | None \<Rightarrow> matchModifiers (isWord c) cs)"
  by pat_completeness auto
termination
proof (relation "measure (\<lambda>(afterWord, s). length s)")
  show "wf (measure (\<lambda>(afterWord, s). length s))" by simp
next
  fix afterWord :: bool and c :: char and cs :: string and w
  assume "(if afterWord then None else modifierAt (c # cs)) = Some w"
  then have "w \<in> set classModifierWords"
    by (auto simp: modifierAt_def find_Some_iff split: if_splits)
  then have "0 < length w"
    by (auto simp: classModifierWords_def)
  then show "((True, drop (length w) (c # cs)), (afterWord, c # cs))
             \<in> measure (\<lambda>(afterWord, s). length s)"
    by simp
next
  fix afterWord :: bool and c :: char and cs :: string
  show "((isWord c, cs), (afterWord, c # cs)) \<in> measure (\<lambda>(afterWord, s). length s)"
    by simp
qed

text \<open>
  \<^verbatim>\<open>/(?:public\s+)?(?:class|interface|enum)\s+([a-zA-Z_$][a-zA-Z0-9_$.]*)/\<close> and
  \<^verbatim>\<open>/extends\s+([a-zA-Z_$][a-zA-Z0-9_$.]*)/\<close>: the leftmost place where one of the
  keywords is followed by white space and the first character of a name; the capture is
  the longest run of name characters from there. The optional \<^verbatim>\<open>public\<close> group does not
  change the capture: no keyword starts inside \<^verbatim>\<open>public\<close> and its white space, so the
  keyword behind a matched group is the leftmost keyword match as well.
\<close>

definition isNameStart :: "char \<Rightarrow> bool" where
  "isNameStart c \<longleftrightarrow> isLetter c \<or> c = CHR ''_'' \<or> c = CHR ''$''"

definition isNamePart :: "char \<Rightarrow> bool" where
  "isNamePart c \<longleftrightarrow> isLetter c \<or> isDigit c \<or> c = CHR ''_'' \<or> c = CHR ''$'' \<or> c = CHR ''.''"

definition keywordNameAt :: "string list \<Rightarrow> string \<Rightarrow> string option" where
  "keywordNameAt keywords s =
     (case find (\<lambda>kw. startsWith s kw \<and>
                   (let r = drop (length kw) s
                    in takeWhile isSpace r \<noteq> [] \<and>
                       (case dropWhile isSpace r of [] \<Rightarrow> False | c # _ \<Rightarrow> isNameStart c)))
             keywords of
        None \<Rightarrow> None
      | Some kw \<Rightarrow> Some (takeWhile isNamePart (dropWhile isSpace (drop (length kw) s))))"

fun searchKeywordName :: "string list \<Rightarrow> string \<Rightarrow> string option" where
  "searchKeywordName keywords [] = None"
| "searchKeywordName keywords (c # cs) =
     (case keywordNameAt keywords (c # cs) of
        Some n \<Rightarrow> Some n
      | None \<Rightarrow> searchKeywordName keywords cs)"

definition classMatch :: "string \<Rightarrow> string option" where
  "classMatch line = searchKeywordName [''class'', ''interface'', ''enum''] line"

definition extendsMatch :: "string \<Rightarrow> string option" where
  "extendsMatch line = searchKeywordName [''extends''] line"

text \<open>
  \<^verbatim>\<open>/implements\s+([^{]+)/\<close>: behind \<^verbatim>\<open>implements\<close> the white space is taken greedily
  and the capture runs to the next \<open>{\<close> or to the end. When the white space is followed
  at once by \<open>{\<close> or by the end, the expression gives one white-space character back and
  the capture is that character; with a single white-space character there is no match at
  this place.
\<close>

definition implementsAt :: "string \<Rightarrow> string option" where
  "implementsAt s =
     (if startsWith s ''implements'' then
        (let r = drop (length ''implements'') s;
             w = takeWhile isSpace r;
             t = dropWhile isSpace r
         in if w = [] then None
            else if t \<noteq> [] \<and> hd t \<noteq> CHR ''{'' then Some (takeWhile (\<lambda>c. c \<noteq> CHR ''{'') t)
            else if 2 \<le> length w then Some [last w]
            else None)
      else None)"

fun implementsMatch :: "string \<Rightarrow> string option" where
  "implementsMatch [] = None"
| "implementsMatch (c # cs) =
     (case implementsAt (c # cs) of
        Some l \<Rightarrow> Some l
      | None \<Rightarrow> implementsMatch cs)"

definition parseClassDeclaration :: "string \<Rightarrow> ClassAnalysis \<Rightarrow> ClassAnalysis" where
  "parseClassDeclaration line analysis =
     (let a1 = analysis\<lparr>modifiers := matchModifiers False line\<rparr>;
          a2 = (case classMatch line of
                  None \<Rightarrow> a1
                | Some fullClassName \<Rightarrow>
                    (let parts = split fullClassName CHR ''.''
                     in if 1 < length parts
                        then a1\<lparr>packageName := join (butlast parts) ''.'',
                                className := last parts\<rparr>
                        else a1));
          a3 = (case extendsMatch line of
                  None \<Rightarrow> a2
                | Some n \<Rightarrow> a2\<lparr>superClass := Some n\<rparr>)
      in case implementsMatch line of
           None \<Rightarrow> a3
         | Some l \<Rightarrow>
             a3\<lparr>interfaces := filter (\<lambda>iface. iface \<noteq> []) (map trim (split l CHR '',''))\<rparr>)"

section \<open>The line scan of \<^verbatim>\<open>parseJavapOutput\<close>\<close>

text \<open>
  A row of the variable table,
  \<^verbatim>\<open>/^\s*\d+\s+\d+\s+(\d+)\s+(\w+)\s+(.+)$/\<close>. White space, digits and the
  characters behind a name are disjoint classes, so every greedy run is forced. The last
  group needs at least one character up to the end of the line, none of them a line
  terminator; when the line ends in the white space behind the name, the expression gives
  the last white-space character to the group. The result is the text of the slot and of
  the name.
\<close>

definition matchVariableRow :: "string \<Rightarrow> (string \<times> string) option" where
  "matchVariableRow s =
     (let s0 = dropWhile isSpace s;
          d1 = takeWhile isDigit s0; r1 = dropWhile isDigit s0;
          w1 = takeWhile isSpace r1; s1 = dropWhile isSpace r1;
          d2 = takeWhile isDigit s1; r2 = dropWhile isDigit s1;
          w2 = takeWhile isSpace r2; s2 = dropWhile isSpace r2;
          d3 = takeWhile isDigit s2; r3 = dropWhile isDigit s2;
          w3 = takeWhile isSpace r3; s3 = dropWhile isSpace r3;
          nm = takeWhile isWord s3; r4 = dropWhile isWord s3;
          w4 = takeWhile isSpace r4; s4 = dropWhile isSpace r4
      in if d1 \<noteq> [] \<and> w1 \<noteq> [] \<and> d2 \<noteq> [] \<and> w2 \<noteq> [] \<and> d3 \<noteq> [] \<and> w3 \<noteq> [] \<and> nm \<noteq> [] \<and> w4 \<noteq> []
            \<and> (if s4 \<noteq> [] then \<forall>c \<in> set s4. \<not> isLineTerminator c
                else 2 \<le> length w4 \<and> \<not> isLineTerminator (last w4))
         then Some (d3, nm) else None)"

definition parseInt :: "string \<Rightarrow> nat" where
  \<comment> \<open>\<^verbatim>\<open>parseInt\<close> on a run of decimal digits\<close>
  "parseInt ds = foldl (\<lambda>n c. 10 * n + (of_char c - 48)) 0 ds"

fun numberText :: "nat \<Rightarrow> string" where
  \<comment> \<open>the decimal text of a number in a template literal\<close>
  "numberText n =
     (if n < 10 then [char_of (48 + n)]
      else numberText (n div 10) @ [char_of (48 + n mod 10)])"

declare numberText.simps [simp del]

text \<open>
  The locals of \<^verbatim>\<open>parseJavapOutput\<close>. \<^verbatim>\<open>currentMethod\<close> is a reference to an object
  that is also an element of \<^verbatim>\<open>analysis.methods\<close>; it is modelled by the position of
  that element. \<^verbatim>\<open>methodParameters\<close> is an object used as a dictionary from slot
  numbers to names: an association list, the newest entry of a slot in front.
\<close>

record ParserState =
  analysis :: ClassAnalysis
  currentMethod :: "nat option"
  inLocalVariableTable :: bool
  methodParameters :: "(nat \<times> string) list"

definition paramName :: "(nat \<times> string) list \<Rightarrow> nat \<Rightarrow> string" where
  \<comment> \<open>\<^verbatim>\<open>methodParameters[j] || `param${j + 1}`\<close>; the empty string is falsy\<close>
  "paramName mp j =
     (case map_of mp j of
        None \<Rightarrow> ''param'' @ numberText (j + 1)
      | Some n \<Rightarrow> if n = [] then ''param'' @ numberText (j + 1) else n)"

definition updatedParams :: "(nat \<times> string) list \<Rightarrow> string list \<Rightarrow> string list" where
  "updatedParams mp ps = map (\<lambda>j. ps ! j @ '' '' @ paramName mp j) [0..<length ps]"

definition setParameters :: "nat \<Rightarrow> string list \<Rightarrow> ClassAnalysis \<Rightarrow> ClassAnalysis" where
  \<comment> \<open>the assignment \<^verbatim>\<open>currentMethod.parameters = ...\<close> through the reference\<close>
  "setParameters i ps a =
     a\<lparr>methods := (methods a)[i := (methods a ! i)\<lparr>parameters := ps\<rparr>]\<rparr>"

definition updateParameterNames :: "ParserState \<Rightarrow> ParserState" where
  \<comment> \<open>the block guarded by \<^verbatim>\<open>Object.keys(methodParameters).length > 0\<close>, which the source
      has twice\<close>
  "updateParameterNames st =
     (case currentMethod st of
        None \<Rightarrow> st
      | Some i \<Rightarrow>
          if methodParameters st \<noteq> [] \<and> i < length (methods (analysis st))
          then st\<lparr>analysis :=
                 setParameters i
                   (updatedParams (methodParameters st) (parameters (methods (analysis st) ! i)))
                   (analysis st)\<rparr>
          else st)"

definition isClassDeclarationLine :: "string \<Rightarrow> bool" where
  "isClassDeclarationLine trimmedLine \<longleftrightarrow>
     startsWith trimmedLine ''public class'' \<or> startsWith trimmedLine ''public interface'' \<or>
     startsWith trimmedLine ''public enum''"

definition isMethodLine :: "string \<Rightarrow> bool" where
  "isMethodLine trimmedLine \<longleftrightarrow>
     startsWith trimmedLine ''public '' \<and> includesChar trimmedLine CHR ''(''
     \<and> includesChar trimmedLine CHR '')''"

definition recordVariableRow :: "ParserState \<Rightarrow> string \<Rightarrow> ParserState" where
  "recordVariableRow st trimmedLine =
     (case (matchVariableRow trimmedLine, currentMethod st) of
        (Some (slotText, rowName), Some i) \<Rightarrow>
          (let slot = parseInt slotText
           in if slot < length (parameters (methods (analysis st) ! i))
              then st\<lparr>methodParameters := (slot, rowName) # methodParameters st\<rparr>
              else st)
      | _ \<Rightarrow> st)"

definition endOfMethod :: "ParserState \<Rightarrow> string \<Rightarrow> ParserState" where
  "endOfMethod st trimmedLine =
     (if currentMethod st \<noteq> None \<and>
         (isMethodLine trimmedLine \<or> startsWith trimmedLine ''}'' \<or>
          startsWith trimmedLine ''SourceFile:'')
      then (updateParameterNames st)
             \<lparr>currentMethod := None, inLocalVariableTable := False, methodParameters := []\<rparr>
      else st)"

definition processLine :: "ParserState \<Rightarrow> string \<Rightarrow> ParserState" where
  \<comment> \<open>one pass of the \<^verbatim>\<open>for\<close> loop; every \<^verbatim>\<open>continue\<close> is a branch that returns\<close>
  "processLine st line =
     (let trimmedLine = trim line
      in if isClassDeclarationLine trimmedLine
         then st\<lparr>analysis := parseClassDeclaration trimmedLine (analysis st)\<rparr>
         else if isMethodLine trimmedLine
         then (case parseMethodFromJavap trimmedLine of
                 None \<Rightarrow> st\<lparr>currentMethod := None\<rparr>
               | Some m \<Rightarrow>
                   st\<lparr>analysis := (analysis st)\<lparr>methods := methods (analysis st) @ [m]\<rparr>,
                      currentMethod := Some (length (methods (analysis st))),
                      methodParameters := []\<rparr>)
         else if trimmedLine = ''LocalVariableTable:''
         then st\<lparr>inLocalVariableTable := True\<rparr>
         else if inLocalVariableTable st \<and> currentMethod st \<noteq> None
         then (if startsWith trimmedLine ''Start'' \<or> startsWith trimmedLine ''Slot'' then st
               else if trimmedLine = []
               then (updateParameterNames st)\<lparr>inLocalVariableTable := False, methodParameters := []\<rparr>
               else endOfMethod (recordVariableRow st trimmedLine) trimmedLine)
         else endOfMethod st trimmedLine)"

definition initialState :: "string \<Rightarrow> ParserState" where
  "initialState cn =
     \<lparr> analysis =
         \<lparr> className = (let simple = last (split cn CHR ''.'') in if simple = [] then cn else simple),
           packageName = [], modifiers = [], superClass = None, interfaces = [],
           classFields = [], methods = [] \<rparr>,
       currentMethod = None, inLocalVariableTable = False, methodParameters = [] \<rparr>"

definition parseLines :: "string list \<Rightarrow> string \<Rightarrow> ParserState" where
  "parseLines lines cn = foldl processLine (initialState cn) lines"

definition parseJavapOutput :: "string \<Rightarrow> string \<Rightarrow> ClassAnalysis" where
  "parseJavapOutput output cn = analysis (parseLines (split output CHR 0x0A) cn)"

section \<open>Subclass search\<close>

text \<open>
  \<^verbatim>\<open>findSubClasses\<close> awaits \<^verbatim>\<open>analyzeClass\<close> for one class after the other inside a
  \<^verbatim>\<open>try\<close> whose \<^verbatim>\<open>catch\<close> is empty. \<^verbatim>\<open>analyzeClass\<close> looks the class up, runs
  \<^verbatim>\<open>javap\<close> and parses its output; here it is a parameter that, from the class and the
  state of the world, gives either the error it throws or the analysis, and the next state
  of the world.
\<close>

datatype error = Error string

fun findSubClassesLoop ::
  "(string \<Rightarrow> 'w \<Rightarrow> (error + ClassAnalysis) \<times> 'w) \<Rightarrow> string \<Rightarrow> string list \<Rightarrow> string list \<Rightarrow> 'w
     \<Rightarrow> string list \<times> 'w" where
  "findSubClassesLoop analyzeClass cn [] subClasses w = (subClasses, w)"
| "findSubClassesLoop analyzeClass cn (cls # rest) subClasses w =
     (case analyzeClass cls w of
        (Inl e, w') \<Rightarrow> findSubClassesLoop analyzeClass cn rest subClasses w'
      | (Inr a, w') \<Rightarrow>
          if superClass a = Some cn
          then findSubClassesLoop analyzeClass cn rest (subClasses @ [cls]) w'
          else findSubClassesLoop analyzeClass cn rest subClasses w')"

definition findSubClasses ::
  "(string \<Rightarrow> 'w \<Rightarrow> (error + ClassAnalysis) \<times> 'w) \<Rightarrow> string \<Rightarrow> string list \<Rightarrow> 'w
     \<Rightarrow> string list \<times> 'w" where
  \<comment> \<open>\<open>allClasses\<close> is what \<^verbatim>\<open>getAllClassNames\<close> returned\<close>
  "findSubClasses analyzeClass cn allClasses w = findSubClassesLoop analyzeClass cn allClasses [] w"

section \<open>What holds between two lines of the scan\<close>

definition pendingInRange :: "ParserState \<Rightarrow> bool" where
  \<comment> \<open>the current method is an element of the methods list and every recorded slot is one
      of its parameter positions\<close>
  "pendingInRange st =
     (case currentMethod st of
        None \<Rightarrow> True
      | Some i \<Rightarrow>
          i < length (methods (analysis st)) \<and>
          (\<forall>k \<in> fst ` set (methodParameters st).
              k < length (parameters (methods (analysis st) ! i))))"

definition signatureOf :: "ClassMethod \<Rightarrow> string \<times> string \<times> string list \<times> nat" where
  \<comment> \<open>what the signature line fixes of a method: all but the texts of its parameters\<close>
  "signatureOf m = (name m, returnType m, methodModifiers m, length (parameters m))"

section \<open>The modifier tokens of a line, as the specification words them\<close>

text \<open>
  The specification speaks of the modifier tokens of a declaration line in the order of
  their appearance. The tokens of a line are its maximal runs of word characters; the
  modifier tokens are those of the vocabulary.
\<close>

function wordRuns :: "string \<Rightarrow> string list" where
  "wordRuns [] = []"
| "wordRuns (c # cs) =
     (if isWord c then takeWhile isWord (c # cs) # wordRuns (dropWhile isWord cs)
      else wordRuns cs)"
  by pat_completeness auto
termination
  by (relation "measure length") (auto simp: length_dropWhile_le less_Suc_eq_le)

definition modifierTokens :: "string list \<Rightarrow> string \<Rightarrow> string list" where
  "modifierTokens vocabulary line = filter (\<lambda>w. w \<in> set vocabulary) (wordRuns line)"

section \<open>Facts about trimming\<close>

lemma dropWhile_rev_dropWhile_hd:
  "dropWhile P (rev (dropWhile P (rev (dropWhile P s)))) = rev (dropWhile P (rev (dropWhile P s)))"
proof (cases "rev (dropWhile P (rev (dropWhile P s)))")
  case Nil
  show ?thesis unfolding Nil by simp
next
  case (Cons y ys)
  let ?t = "dropWhile P s"
  have t: "?t = rev (dropWhile P (rev ?t)) @ rev (takeWhile P (rev ?t))"
    by (metis rev_append rev_rev_ident takeWhile_dropWhile_id)
  with Cons have "?t = y # (ys @ rev (takeWhile P (rev ?t)))" by simp
  then have "\<not> P y" by (metis hd_dropWhile list.sel(1) list.distinct(1))
  then show ?thesis unfolding Cons by simp
qed

lemma trim_idem: "trim (trim s) = trim s"
proof -
  let ?u = "rev (dropWhile isSpace (rev (dropWhile isSpace s)))"
  have a: "dropWhile isSpace ?u = ?u" by (rule dropWhile_rev_dropWhile_hd)
  have b: "dropWhile isSpace (rev ?u) = rev ?u"
    by (simp add: dropWhile_idem)
  show ?thesis unfolding trim_def a b by simp
qed

lemma trim_Nil [simp]: "trim [] = []"
  by (simp add: trim_def)

section \<open>Facts about the string helpers and the declaration parser\<close>

lemma indexOf_None_iff: "indexOf s c = None \<longleftrightarrow> c \<notin> set s"
  by (induction s) auto

lemma lastIndexOf_None_iff: "lastIndexOf s c = None \<longleftrightarrow> c \<notin> set s"
  by (simp add: lastIndexOf_def indexOf_None_iff)

lemma methods_parseClassDeclaration:
  "methods (parseClassDeclaration line a) = methods a"
  by (simp add: parseClassDeclaration_def Let_def split: option.splits)

section \<open>Parameter splitting is generic-aware\<close>

lemma topLevelFragments_not_Nil: "topLevelFragments d s \<noteq> []"
  by (induction s arbitrary: d) (auto split: list.splits)

lemma splitLoop_fragments:
  "filter (\<lambda>f. f \<noteq> []) (map trim (splitLoop cs ps cur n)) =
   filter (\<lambda>f. f \<noteq> []) (map trim ps) @
   filter (\<lambda>f. f \<noteq> [])
     (map trim (case topLevelFragments n cs of [] \<Rightarrow> [cur] | f # fs \<Rightarrow> (cur @ f) # fs))"
proof (induction cs arbitrary: ps cur n)
  case Nil
  then show ?case by (simp add: trim_idem)
next
  case (Cons c cs)
  show ?case
  proof (cases "c = CHR '','' \<and> n = 0")
    case True
    obtain f fs where f: "topLevelFragments 0 cs = f # fs"
      using topLevelFragments_not_Nil by (cases "topLevelFragments 0 cs") auto
    from True f show ?thesis
      using Cons.IH [of "ps @ [trim cur]" "[]" 0] by (simp add: trim_idem)
  next
    case False
    let ?n = "if c = CHR ''<'' then n + 1 else if c = CHR ''>'' then n - 1 else n"
    obtain f fs where f: "topLevelFragments ?n cs = f # fs"
      using topLevelFragments_not_Nil by (cases "topLevelFragments ?n cs") auto
    have "splitLoop (c # cs) ps cur n = splitLoop cs ps (cur @ [c]) ?n"
      using False by auto
    moreover have "topLevelFragments n (c # cs) = (c # f) # fs"
      using False f by auto
    ultimately show ?thesis
      using Cons.IH [of ps "cur @ [c]" ?n] f by simp
  qed
qed

lemma parseParameterList_fragments:
  "parseParameterList raw =
     filter (\<lambda>f. f \<noteq> []) (map trim (topLevelFragments 0 (trim raw)))"
proof (cases "trim raw = []")
  case True
  then show ?thesis by (simp add: parseParameterList_def)
next
  case False
  obtain f fs where f: "topLevelFragments 0 (trim raw) = f # fs"
    using topLevelFragments_not_Nil by (cases "topLevelFragments 0 (trim raw)") auto
  show ?thesis
    using False splitLoop_fragments [of "trim raw" "[]" "[]" 0] f
    by (simp add: parseParameterList_def splitParameters_def Let_def)
qed

lemma parseParameterList_trimmed:
  "f \<in> set (parseParameterList raw) \<Longrightarrow> f \<noteq> [] \<and> trim f = f"
  by (auto simp: parseParameterList_fragments trim_idem)

text \<open>
  Claim C6. The parameters that method extraction takes from the text between the
  parentheses are the fragments between the commas met at nesting depth zero, each
  trimmed, the empty ones dropped; every parameter is non-empty and trimmed; the list
  \<^verbatim>\<open>java.util.Map<K, V> m, int n\<close> gives exactly two parameters; and a list that is
  empty or only white space gives none.
\<close>

theorem parameter_splitting_generic_aware:
  "parseParameterList raw =
     filter (\<lambda>f. f \<noteq> []) (map trim (topLevelFragments 0 (trim raw)))
   \<and> (\<forall>f \<in> set (parseParameterList raw). f \<noteq> [] \<and> trim f = f)
   \<and> parseParameterList ''java.util.Map<K, V> m, int n'' = [''java.util.Map<K, V> m'', ''int n'']
   \<and> (trim raw = [] \<longrightarrow> parseParameterList raw = [])"
proof -
  have "parseParameterList ''java.util.Map<K, V> m, int n'' = [''java.util.Map<K, V> m'', ''int n'']"
    by code_simp
  moreover have "trim raw = [] \<longrightarrow> parseParameterList raw = []"
    by (simp add: parseParameterList_def)
  ultimately show ?thesis
    using parseParameterList_fragments parseParameterList_trimmed by blast
qed

theorem parameter_splitting_generic_aware_witness:
  "trim ''  '' = [] \<and> parseParameterList ''  '' = []
   \<and> ''b'' \<in> set (parseParameterList ''List<A, B> a, , b'')
   \<and> parseParameterList ''List<A, B> a, , b'' = [''List<A, B> a'', ''b'']
   \<and> trim ''b'' = ''b''"
proof -
  have a: "trim ''  '' = []" by code_simp
  have b: "parseParameterList ''List<A, B> a, , b'' = [''List<A, B> a'', ''b'']" by code_simp
  have c: "''b'' \<in> set (parseParameterList ''List<A, B> a, , b'')" unfolding b by simp
  show ?thesis
    using parameter_splitting_generic_aware [of "''  ''"]
      parameter_splitting_generic_aware [of "''List<A, B> a, , b''"] a b c by blast
qed

section \<open>Facts about one step of the scan\<close>

lemma dropWhile_isSpace_trim: "dropWhile isSpace (trim s) = trim s"
  unfolding trim_def by (rule dropWhile_rev_dropWhile_hd)

lemma matchVariableRow_digit:
  assumes "matchVariableRow t = Some r"
  shows "\<exists>c cs. dropWhile isSpace t = c # cs \<and> isDigit c"
proof -
  from assms have "takeWhile isDigit (dropWhile isSpace t) \<noteq> []"
    by (simp add: matchVariableRow_def Let_def split: if_splits)
  then show ?thesis
    by (cases "dropWhile isSpace t") (auto split: if_splits)
qed

lemma row_line_shape:
  assumes "matchVariableRow (trim line) = Some r"
  shows "\<exists>c cs. trim line = c # cs \<and> isDigit c"
  using matchVariableRow_digit [OF assms] by (simp add: dropWhile_isSpace_trim)

lemma digit_line_plain:
  assumes "t = c # cs" "isDigit c"
  shows "\<not> isClassDeclarationLine t" "\<not> isMethodLine t" "t \<noteq> ''LocalVariableTable:''"
    "\<not> startsWith t ''Start''" "\<not> startsWith t ''Slot''" "t \<noteq> []"
    "\<not> startsWith t ''}''" "\<not> startsWith t ''SourceFile:''"
  using assms
  by (auto simp: isClassDeclarationLine_def isMethodLine_def startsWith_def isDigit_def)

lemma endOfMethod_plain:
  "\<not> isMethodLine t \<Longrightarrow> \<not> startsWith t ''}'' \<Longrightarrow> \<not> startsWith t ''SourceFile:'' \<Longrightarrow>
   endOfMethod st t = st"
  by (simp add: endOfMethod_def)

lemma processLine_row:
  assumes "matchVariableRow (trim line) = Some (slotText, rowName)"
  shows "processLine st line =
     (if inLocalVariableTable st \<and>
         (\<exists>i. currentMethod st = Some i \<and>
              parseInt slotText < length (parameters (methods (analysis st) ! i)))
      then st\<lparr>methodParameters := (parseInt slotText, rowName) # methodParameters st\<rparr>
      else st)"
proof -
  obtain c cs where t: "trim line = c # cs" "isDigit c"
    using row_line_shape [OF assms] by blast
  note p = digit_line_plain [OF t]
  have e: "\<And>s. endOfMethod s (trim line) = s"
    using p by (simp add: endOfMethod_plain)
  have "processLine st line =
      (if inLocalVariableTable st \<and> currentMethod st \<noteq> None
       then recordVariableRow st (trim line) else st)"
    using p e by (auto simp: processLine_def Let_def)
  then show ?thesis
    using assms by (auto simp: recordVariableRow_def Let_def)
qed

lemma length_updatedParams [simp]: "length (updatedParams mp ps) = length ps"
  by (simp add: updatedParams_def)

lemma updateParameterNames_fields [simp]:
  "currentMethod (updateParameterNames st) = currentMethod st"
  "methodParameters (updateParameterNames st) = methodParameters st"
  "inLocalVariableTable (updateParameterNames st) = inLocalVariableTable st"
  "length (methods (analysis (updateParameterNames st))) = length (methods (analysis st))"
  by (simp_all add: updateParameterNames_def setParameters_def split: option.splits)

lemma updateParameterNames_length_parameters [simp]:
  "length (parameters (methods (analysis (updateParameterNames st)) ! k)) =
   length (parameters (methods (analysis st) ! k))"
  by (cases "k < length (methods (analysis st))")
     (auto simp: updateParameterNames_def setParameters_def nth_list_update
       split: option.splits)

lemma pendingInRange_cleared:
  "pendingInRange (updateParameterNames st) \<Longrightarrow>
   pendingInRange ((updateParameterNames st)\<lparr>inLocalVariableTable := b, methodParameters := []\<rparr>)"
  by (simp add: pendingInRange_def split: option.splits)

lemma pendingInRange_updateParameterNames:
  "pendingInRange st \<Longrightarrow> pendingInRange (updateParameterNames st)"
  by (simp add: pendingInRange_def split: option.splits)

lemma pendingInRange_recordVariableRow:
  "pendingInRange st \<Longrightarrow> pendingInRange (recordVariableRow st t)"
  by (auto simp: pendingInRange_def recordVariableRow_def Let_def split: option.splits prod.splits)

lemma pendingInRange_endOfMethod:
  "pendingInRange st \<Longrightarrow> pendingInRange (endOfMethod st t)"
  by (auto simp: pendingInRange_def endOfMethod_def split: option.splits)

lemma pendingInRange_processLine:
  assumes "pendingInRange st"
  shows "pendingInRange (processLine st line)"
proof -
  have a: "pendingInRange (st\<lparr>analysis := parseClassDeclaration t (analysis st)\<rparr>)" for t
    using assms by (simp add: pendingInRange_def methods_parseClassDeclaration split: option.splits)
  have b: "pendingInRange (case parseMethodFromJavap t of
                 None \<Rightarrow> st\<lparr>currentMethod := None\<rparr>
               | Some m \<Rightarrow>
                   st\<lparr>analysis := (analysis st)\<lparr>methods := methods (analysis st) @ [m]\<rparr>,
                      currentMethod := Some (length (methods (analysis st))),
                      methodParameters := []\<rparr>)" for t
    by (simp add: pendingInRange_def split: option.splits)
  have c: "pendingInRange (st\<lparr>inLocalVariableTable := True\<rparr>)"
    using assms by (simp add: pendingInRange_def split: option.splits)
  have d: "pendingInRange ((updateParameterNames st)\<lparr>inLocalVariableTable := False, methodParameters := []\<rparr>)"
    using assms by (intro pendingInRange_cleared pendingInRange_updateParameterNames)
  have e: "pendingInRange (endOfMethod (recordVariableRow st t) t)" for t
    using assms by (intro pendingInRange_endOfMethod pendingInRange_recordVariableRow)
  have f: "pendingInRange (endOfMethod st t)" for t
    using assms by (rule pendingInRange_endOfMethod)
  show ?thesis
    unfolding processLine_def Let_def using a b c d e f assms by presburger
qed

lemma pendingInRange_foldl:
  "pendingInRange st \<Longrightarrow> pendingInRange (foldl processLine st ls)"
  by (induction ls arbitrary: st) (simp_all add: pendingInRange_processLine)

lemma pendingInRange_parseLines: "pendingInRange (parseLines ls cn)"
  unfolding parseLines_def
  by (rule pendingInRange_foldl) (simp add: pendingInRange_def initialState_def)

lemma indexOf_Some_mem: "indexOf s c = Some i \<Longrightarrow> c \<in> set s"
  using indexOf_None_iff [of s c] by auto

lemma indexOfFrom_Some_mem: "indexOfFrom s c k = Some i \<Longrightarrow> c \<in> set s"
  by (auto simp: indexOfFrom_def dest: indexOf_Some_mem in_set_dropD)

lemma lastIndexOf_Some: "c \<in> set s \<Longrightarrow> \<exists>i. lastIndexOf s c = Some i"
  using lastIndexOf_None_iff [of s c] by auto

lemma methods_updateParameterNames_length:
  "length (methods (analysis (updateParameterNames st))) = length (methods (analysis st))"
  by simp

lemma length_methods_recordVariableRow [simp]:
  "methods (analysis (recordVariableRow st t)) = methods (analysis st)"
  by (simp add: recordVariableRow_def Let_def split: option.splits prod.splits)

lemma length_methods_endOfMethod [simp]:
  "length (methods (analysis (endOfMethod st t))) = length (methods (analysis st))"
  by (simp add: endOfMethod_def)

lemma isClassDeclarationLine_public:
  "isClassDeclarationLine t \<Longrightarrow> startsWith t ''public ''"
  by (auto simp: isClassDeclarationLine_def startsWith_def prefix_def)

lemma length_methods_not_public:
  assumes "\<not> startsWith (trim line) ''public ''"
  shows "length (methods (analysis (processLine st line))) = length (methods (analysis st))"
proof -
  have "\<not> isClassDeclarationLine (trim line)" "\<not> isMethodLine (trim line)"
    using assms isClassDeclarationLine_public by (auto simp: isMethodLine_def)
  then show ?thesis
    by (simp add: processLine_def Let_def)
qed

lemma signatureOf_setParameters:
  assumes "i < length (methods a)" "length ps = length (parameters (methods a ! i))"
  shows "map signatureOf (methods (setParameters i ps a)) = map signatureOf (methods a)"
proof -
  have "signatureOf ((methods a ! i)\<lparr>parameters := ps\<rparr>) = map signatureOf (methods a) ! i"
    using assms by (simp add: signatureOf_def)
  then show ?thesis
    by (simp add: setParameters_def map_update)
qed

lemma signatureOf_updateParameterNames [simp]:
  "map signatureOf (methods (analysis (updateParameterNames st))) =
   map signatureOf (methods (analysis st))"
  by (simp add: updateParameterNames_def signatureOf_setParameters split: option.splits)

lemma signatureOf_endOfMethod [simp]:
  "map signatureOf (methods (analysis (endOfMethod st t))) =
   map signatureOf (methods (analysis st))"
  by (simp add: endOfMethod_def)

lemma signatureOf_processLine:
  "map signatureOf (methods (analysis (processLine st line))) =
   map signatureOf (methods (analysis st)) @
   (if \<not> isClassDeclarationLine (trim line) \<and> isMethodLine (trim line)
    then (case parseMethodFromJavap (trim line) of None \<Rightarrow> [] | Some m \<Rightarrow> [signatureOf m])
    else [])"
  by (simp add: processLine_def Let_def methods_parseClassDeclaration split: option.splits)

lemma signatureOf_foldl:
  "map signatureOf (methods (analysis (foldl processLine st ls))) =
   map signatureOf (methods (analysis st)) @
   map signatureOf (List.map_filter parseMethodFromJavap
     (filter (\<lambda>t. \<not> isClassDeclarationLine t \<and> isMethodLine t) (map trim ls)))"
proof (induction ls arbitrary: st)
  case Nil
  then show ?case by (simp add: List.map_filter_simps)
next
  case (Cons l ls)
  show ?case
    unfolding foldl_Cons Cons.IH signatureOf_processLine
    by (simp add: List.map_filter_simps split: option.splits)
qed

lemma declaration_updateParameterNames:
  "\<exists>ms. analysis (updateParameterNames st) = (analysis st)\<lparr>methods := ms\<rparr>"
proof (cases "analysis (updateParameterNames st) = analysis st")
  case True
  then have "analysis (updateParameterNames st) = (analysis st)\<lparr>methods := methods (analysis st)\<rparr>"
    by simp
  then show ?thesis by blast
next
  case False
  then show ?thesis
    by (auto simp: updateParameterNames_def setParameters_def split: option.splits if_splits)
qed

lemma declaration_recordVariableRow [simp]:
  "analysis (recordVariableRow st t) = analysis st"
  by (simp add: recordVariableRow_def Let_def split: option.splits prod.splits)

lemma declaration_endOfMethod:
  "\<exists>ms. analysis (endOfMethod st t) = (analysis st)\<lparr>methods := ms\<rparr>"
proof (cases "endOfMethod st t = st")
  case True
  then have "analysis (endOfMethod st t) = (analysis st)\<lparr>methods := methods (analysis st)\<rparr>"
    by simp
  then show ?thesis by blast
next
  case False
  then show ?thesis
    using declaration_updateParameterNames [of st] by (auto simp: endOfMethod_def split: if_splits)
qed

lemma declaration_processLine:
  assumes "\<not> isClassDeclarationLine (trim line)"
  shows "\<exists>ms. analysis (processLine st line) = (analysis st)\<lparr>methods := ms\<rparr>"
proof -
  have i: "\<exists>ms. analysis st = (analysis st)\<lparr>methods := ms\<rparr>"
    by (rule exI [of _ "methods (analysis st)"]) simp
  have a: "\<exists>ms. analysis (case parseMethodFromJavap t of
                 None \<Rightarrow> st\<lparr>currentMethod := None\<rparr>
               | Some m \<Rightarrow>
                   st\<lparr>analysis := (analysis st)\<lparr>methods := methods (analysis st) @ [m]\<rparr>,
                      currentMethod := Some (length (methods (analysis st))),
                      methodParameters := []\<rparr>) = (analysis st)\<lparr>methods := ms\<rparr>" for t
    using i by (auto split: option.splits)
  have b: "\<exists>ms. analysis (st\<lparr>inLocalVariableTable := True\<rparr>) = (analysis st)\<lparr>methods := ms\<rparr>"
    using i by simp
  have c: "\<exists>ms. analysis ((updateParameterNames st)\<lparr>inLocalVariableTable := False, methodParameters := []\<rparr>)
      = (analysis st)\<lparr>methods := ms\<rparr>"
    using declaration_updateParameterNames [of st] by simp
  have d: "\<exists>ms. analysis (endOfMethod (recordVariableRow st t) t) = (analysis st)\<lparr>methods := ms\<rparr>" for t
    using declaration_endOfMethod [of "recordVariableRow st t" t] by simp
  have e: "\<exists>ms. analysis (endOfMethod st t) = (analysis st)\<lparr>methods := ms\<rparr>" for t
    by (rule declaration_endOfMethod)
  show ?thesis
    unfolding processLine_def Let_def using assms i a b c d e by presburger
qed

lemma declaration_foldl:
  assumes "\<forall>l \<in> set ls. \<not> isClassDeclarationLine (trim l)"
  shows "\<exists>ms. analysis (foldl processLine st ls) = (analysis st)\<lparr>methods := ms\<rparr>"
  using assms
proof (induction ls arbitrary: st)
  case Nil
  show ?case by (rule exI [of _ "methods (analysis st)"]) simp
next
  case (Cons l ls)
  obtain ms where a: "analysis (processLine st l) = (analysis st)\<lparr>methods := ms\<rparr>"
    using declaration_processLine [of l st] Cons.prems by auto
  obtain ms' where "analysis (foldl processLine (processLine st l) ls) =
      (analysis (processLine st l))\<lparr>methods := ms'\<rparr>"
    using Cons.IH [of "processLine st l"] Cons.prems by auto
  then show ?case using a by auto
qed

lemma parseInt_snoc: "parseInt (ds @ [c]) = 10 * parseInt ds + (of_char c - 48)"
  by (simp add: parseInt_def)

lemma digit_char_value: "d < 10 \<Longrightarrow> (of_char (char_of (48 + d) :: char) :: nat) - 48 = d"
  by simp

lemma parseInt_numberText: "parseInt (numberText n) = n"
proof (induction n rule: numberText.induct)
  case (1 n)
  show ?case
  proof (cases "n < 10")
    case True
    then show ?thesis
      by (subst numberText.simps) (simp add: parseInt_def)
  next
    case False
    have "parseInt (numberText n) = 10 * parseInt (numberText (n div 10)) + n mod 10"
      using False by (subst numberText.simps) (simp add: parseInt_snoc)
    then show ?thesis using 1 False by simp
  qed
qed

lemma nth_updatedParams:
  "j < length ps \<Longrightarrow> updatedParams mp ps ! j = ps ! j @ '' '' @ paramName mp j"
  by (simp add: updatedParams_def)

lemma parameters_updateParameterNames:
  assumes "k < length (methods (analysis st))"
  shows "parameters (methods (analysis (updateParameterNames st)) ! k) =
     (if currentMethod st = Some k \<and> methodParameters st \<noteq> []
      then updatedParams (methodParameters st) (parameters (methods (analysis st) ! k))
      else parameters (methods (analysis st) ! k))"
  using assms
  by (auto simp: updateParameterNames_def setParameters_def nth_list_update split: option.splits)

lemma parameters_endOfMethod:
  assumes "k < length (methods (analysis st))"
  shows "parameters (methods (analysis (endOfMethod st t)) ! k) =
     (if currentMethod st = Some k \<and> methodParameters st \<noteq> [] \<and>
         (isMethodLine t \<or> startsWith t ''}'' \<or> startsWith t ''SourceFile:'')
      then updatedParams (methodParameters st) (parameters (methods (analysis st) ! k))
      else parameters (methods (analysis st) ! k))"
  using assms by (auto simp: endOfMethod_def parameters_updateParameterNames)

lemma terminator_not_row:
  assumes "startsWith (trim line) ''}'' \<or> startsWith (trim line) ''SourceFile:''"
  shows "matchVariableRow (trim line) = None"
proof (cases "matchVariableRow (trim line)")
  case None
  then show ?thesis .
next
  case (Some r)
  then obtain c cs where "trim line = c # cs" "isDigit c"
    using row_line_shape by blast
  with assms show ?thesis
    by (auto simp: startsWith_def isDigit_def)
qed

lemma recordVariableRow_None: "matchVariableRow t = None \<Longrightarrow> recordVariableRow st t = st"
  by (simp add: recordVariableRow_def)

lemma terminator_shape:
  assumes "startsWith t ''}'' \<or> startsWith t ''SourceFile:''"
  shows "\<not> isClassDeclarationLine t" "t \<noteq> ''LocalVariableTable:''" "\<not> startsWith t ''Start''"
    "\<not> startsWith t ''Slot''" "t \<noteq> []"
  using assms by (auto simp: isClassDeclarationLine_def startsWith_def prefix_def)

lemma parameters_processLine:
  assumes k: "k < length (methods (analysis st))" and m: "\<not> isMethodLine (trim line)"
  shows "parameters (methods (analysis (processLine st line)) ! k) =
     (if currentMethod st = Some k \<and> methodParameters st \<noteq> [] \<and>
         ((trim line = [] \<and> inLocalVariableTable st) \<or> startsWith (trim line) ''}'' \<or>
          startsWith (trim line) ''SourceFile:'')
      then updatedParams (methodParameters st) (parameters (methods (analysis st) ! k))
      else parameters (methods (analysis st) ! k))"
proof (cases "startsWith (trim line) ''}'' \<or> startsWith (trim line) ''SourceFile:''")
  case True
  note s = terminator_shape [OF True]
  have r: "recordVariableRow st (trim line) = st"
    using terminator_not_row [OF True] by (rule recordVariableRow_None)
  have "processLine st line = endOfMethod st (trim line)"
    using s m r by (simp add: processLine_def Let_def)
  then show ?thesis
    using True m k by (simp add: parameters_endOfMethod)
next
  case False
  have e: "endOfMethod s (trim line) = s" for s
    using False m by (simp add: endOfMethod_def)
  show ?thesis
  proof (cases "trim line = []")
    case True
    then have "\<not> isClassDeclarationLine (trim line)"
      by (simp add: isClassDeclarationLine_def startsWith_def)
    then have "processLine st line =
        (if inLocalVariableTable st \<and> currentMethod st \<noteq> None
         then (updateParameterNames st)\<lparr>inLocalVariableTable := False, methodParameters := []\<rparr>
         else st)"
      using True m e by (auto simp: processLine_def Let_def startsWith_def)
    then show ?thesis
      using True False k by (auto simp: parameters_updateParameterNames)
  next
    case ne: False
    have "methods (analysis (processLine st line)) = methods (analysis st)"
      using ne m e by (simp add: processLine_def Let_def methods_parseClassDeclaration)
    then show ?thesis using ne False by simp
  qed
qed

lemma updateParameterNames_no_pending:
  "methodParameters st = [] \<Longrightarrow> updateParameterNames st = st"
  by (simp add: updateParameterNames_def split: option.splits)

lemma processLine_no_rows:
  assumes "methodParameters st = []" "matchVariableRow (trim line) = None"
  shows "methodParameters (processLine st line) = [] \<and>
     methods (analysis (processLine st line)) =
       methods (analysis st) @
       (if \<not> isClassDeclarationLine (trim line) \<and> isMethodLine (trim line)
        then (case parseMethodFromJavap (trim line) of None \<Rightarrow> [] | Some m \<Rightarrow> [m])
        else [])"
  using assms
  by (simp add: processLine_def Let_def methods_parseClassDeclaration endOfMethod_def
      updateParameterNames_no_pending recordVariableRow_None split: option.splits)

lemma foldl_no_rows:
  assumes "\<forall>l \<in> set ls. matchVariableRow (trim l) = None" "methodParameters st = []"
  shows "methods (analysis (foldl processLine st ls)) =
       methods (analysis st) @
       List.map_filter parseMethodFromJavap
         (filter (\<lambda>t. \<not> isClassDeclarationLine t \<and> isMethodLine t) (map trim ls))"
  using assms
proof (induction ls arbitrary: st)
  case Nil
  then show ?case by (simp add: List.map_filter_simps)
next
  case (Cons l ls)
  have p: "methodParameters (processLine st l) = []"
    and q: "methods (analysis (processLine st l)) =
       methods (analysis st) @
       (if \<not> isClassDeclarationLine (trim l) \<and> isMethodLine (trim l)
        then (case parseMethodFromJavap (trim l) of None \<Rightarrow> [] | Some m \<Rightarrow> [m])
        else [])"
    using processLine_no_rows [of st l] Cons.prems by auto
  have "methods (analysis (foldl processLine (processLine st l) ls)) =
       methods (analysis (processLine st l)) @
       List.map_filter parseMethodFromJavap
         (filter (\<lambda>t. \<not> isClassDeclarationLine t \<and> isMethodLine t) (map trim ls))"
    using Cons.IH [OF _ p] Cons.prems by simp
  then show ?case
    unfolding foldl_Cons q by (simp add: List.map_filter_simps split: option.splits)
qed

section \<open>No rule of the parser builds a field\<close>

lemma classFields_parseClassDeclaration:
  "classFields (parseClassDeclaration line a) = classFields a"
  by (simp add: parseClassDeclaration_def Let_def split: option.splits)

lemma classFields_updateParameterNames:
  "classFields (analysis (updateParameterNames st)) = classFields (analysis st)"
  by (simp add: updateParameterNames_def setParameters_def split: option.splits)

lemma classFields_recordVariableRow:
  "classFields (analysis (recordVariableRow st t)) = classFields (analysis st)"
  by (simp add: recordVariableRow_def Let_def split: option.splits prod.splits)

lemma classFields_endOfMethod:
  "classFields (analysis (endOfMethod st t)) = classFields (analysis st)"
  by (simp add: endOfMethod_def classFields_updateParameterNames)

lemma classFields_processLine:
  "classFields (analysis (processLine st line)) = classFields (analysis st)"
  by (simp add: processLine_def Let_def classFields_parseClassDeclaration
      classFields_updateParameterNames classFields_recordVariableRow classFields_endOfMethod
      split: option.splits)

lemma classFields_foldl:
  "classFields (analysis (foldl processLine st ls)) = classFields (analysis st)"
  by (induction ls arbitrary: st) (simp_all add: classFields_processLine)

text \<open>
  Claim C3. For every disassembly text and class identifier the fields of the returned
  analysis are the empty list.
\<close>

theorem fields_always_empty: "classFields (parseJavapOutput output cn) = []"
  by (simp add: parseJavapOutput_def parseLines_def classFields_foldl initialState_def)

section \<open>The modifier scan gives the modifier tokens\<close>

lemma classModifierWords_word: "w \<in> set classModifierWords \<Longrightarrow> c \<in> set w \<Longrightarrow> isWord c"
  by (auto simp: classModifierWords_def isWord_def isLetter_def)

lemma classModifierWords_not_Nil: "w \<in> set classModifierWords \<Longrightarrow> w \<noteq> []"
  by (auto simp: classModifierWords_def)

lemma wordAhead_hd: "\<not> wordAhead r \<longleftrightarrow> (r = [] \<or> \<not> isWord (hd r))"
  by (cases r) (auto simp: wordAhead_def)

lemma run_then_boundary:
  assumes "\<forall>c \<in> set w. isWord c" "\<not> wordAhead r"
  shows "takeWhile isWord (w @ r) = w" "dropWhile isWord (w @ r) = r"
  using assms by (cases r; simp add: wordAhead_def takeWhile_append dropWhile_append)+

lemma modifierAt_Some:
  assumes "modifierAt s = Some w"
  shows "w \<in> set classModifierWords \<and> (\<exists>r. s = w @ r \<and> \<not> wordAhead r)"
proof -
  from assms have w: "w \<in> set classModifierWords" and p: "startsWith s w"
    and b: "\<not> wordAhead (drop (length w) s)"
    by (auto simp: modifierAt_def find_Some_iff in_set_conv_nth)
  from p obtain r where "s = w @ r" by (auto simp: startsWith_def prefix_def)
  with b w show ?thesis by auto
qed

lemma modifierAt_None:
  assumes "modifierAt s = None" "w \<in> set classModifierWords" "\<not> wordAhead r"
  shows "s \<noteq> w @ r"
proof
  assume "s = w @ r"
  then have "startsWith s w \<and> \<not> wordAhead (drop (length w) s)"
    using assms(3) by (simp add: startsWith_def)
  with assms(1,2) show False
    by (auto simp: modifierAt_def find_None_iff)
qed

lemma matchModifiers_tokens:
  "matchModifiers afterWord s =
     modifierTokens classModifierWords (if afterWord then dropWhile isWord s else s)"
proof (induction afterWord s rule: matchModifiers.induct)
  case (1 afterWord)
  show ?case by (simp add: modifierTokens_def)
next
  case (2 afterWord c cs)
  show ?case
  proof (cases afterWord)
    case True
    then show ?thesis using 2 by (simp add: modifierTokens_def)
  next
    case False
    show ?thesis
    proof (cases "modifierAt (c # cs)")
      case (Some w)
      then obtain r where w: "w \<in> set classModifierWords" and s: "c # cs = w @ r"
        and b: "\<not> wordAhead r"
        using modifierAt_Some by blast
      have ww: "\<forall>c \<in> set w. isWord c" using w classModifierWords_word by blast
      have ne: "w \<noteq> []" using w by (rule classModifierWords_not_Nil)
      have c: "isWord c" using s ne ww by (cases w) auto
      have tw: "takeWhile isWord (c # cs) = w" and dw: "dropWhile isWord (c # cs) = r"
        unfolding s using run_then_boundary [OF ww b] by auto
      have dr: "dropWhile isWord r = r"
        using b by (cases r) (auto simp: wordAhead_def)
      have "wordRuns (c # cs) = w # wordRuns r"
        using c tw dw by (simp del: takeWhile.simps dropWhile.simps) (simp add: c)
      moreover have dl: "drop (length w) (c # cs) = r"
        unfolding s by simp
      moreover have "matchModifiers False (c # cs) =
          w # matchModifiers True (drop (length w) (c # cs))"
        using Some by simp
      moreover have "matchModifiers True (drop (length w) (c # cs)) =
          modifierTokens classModifierWords (dropWhile isWord (drop (length w) (c # cs)))"
        using "2.IH" False Some by simp
      ultimately show ?thesis
        using False w dr by (simp add: modifierTokens_def)
    next
      case None
      have m: "matchModifiers False (c # cs) = matchModifiers (isWord c) cs"
        using None by simp
      have ih: "matchModifiers (isWord c) cs =
          modifierTokens classModifierWords (if isWord c then dropWhile isWord cs else cs)"
        using "2.IH" False None by simp
      show ?thesis
      proof (cases "isWord c")
        case True
        let ?w = "takeWhile isWord (c # cs)"
        have "c # cs = ?w @ dropWhile isWord (c # cs)" by simp
        moreover have "\<not> wordAhead (dropWhile isWord (c # cs))"
          unfolding wordAhead_hd using hd_dropWhile [of isWord "c # cs"] by blast
        ultimately have "?w \<notin> set classModifierWords"
          using modifierAt_None [OF None] by blast
        then show ?thesis
          using False True m ih by (simp add: modifierTokens_def)
      next
        case False
        then show ?thesis using \<open>\<not> afterWord\<close> m ih by (simp add: modifierTokens_def)
      qed
    qed
  qed
qed

lemma modifiers_parseClassDeclaration:
  "modifiers (parseClassDeclaration line a) = matchModifiers False line"
  by (simp add: parseClassDeclaration_def Let_def split: option.splits)

lemma modifierTokens_subset: "set (modifierTokens v line) \<subseteq> set v"
  by (auto simp: modifierTokens_def)

lemma class_modifiers_processLine:
  assumes "set (modifiers (analysis st)) \<subseteq> set classModifierWords"
  shows "set (modifiers (analysis (processLine st line))) \<subseteq> set classModifierWords"
proof (cases "isClassDeclarationLine (trim line)")
  case True
  then show ?thesis
    using modifierTokens_subset [of classModifierWords "trim line"]
    by (simp add: processLine_def Let_def modifiers_parseClassDeclaration matchModifiers_tokens)
next
  case False
  then obtain ms where "analysis (processLine st line) = (analysis st)\<lparr>methods := ms\<rparr>"
    using declaration_processLine by blast
  then show ?thesis using assms by simp
qed

lemma class_modifiers_foldl:
  "set (modifiers (analysis st)) \<subseteq> set classModifierWords \<Longrightarrow>
   set (modifiers (analysis (foldl processLine st ls))) \<subseteq> set classModifierWords"
  by (induction ls arbitrary: st) (simp_all add: class_modifiers_processLine)

lemma stripModifiers_subset:
  "set (fst (stripModifiers r acc k)) \<subseteq> set acc \<union> set modifierWords"
proof (induction r acc k rule: stripModifiers.induct)
  case (1 remainingLine mods startIndex)
  show ?case
  proof (cases "find (\<lambda>modifier. startsWith remainingLine (modifier @ '' '')) modifierWords")
    case None
    then show ?thesis by (subst stripModifiers.simps) simp
  next
    case (Some w)
    then have "w \<in> set modifierWords"
      by (auto simp: find_Some_iff)
    then show ?thesis
      using 1 [OF Some] Some by (subst stripModifiers.simps) auto
  qed
qed

lemma parseMethodFromJavap_modifiers:
  assumes "parseMethodFromJavap l = Some m"
  shows "methodModifiers m = fst (stripModifiers (trim l) [] 0)"
  using assms
  by (auto simp: parseMethodFromJavap_def Let_def case_prod_beta split: option.splits)

lemma class_modifiers_step:
  "modifiers (analysis (processLine st line)) =
     (if isClassDeclarationLine (trim line) then modifierTokens classModifierWords (trim line)
      else modifiers (analysis st))"
proof (cases "isClassDeclarationLine (trim line)")
  case True
  then show ?thesis
    by (simp add: processLine_def Let_def modifiers_parseClassDeclaration matchModifiers_tokens)
next
  case False
  then obtain ms where "analysis (processLine st line) = (analysis st)\<lparr>methods := ms\<rparr>"
    using declaration_processLine by blast
  then show ?thesis using False by simp
qed

lemma class_modifiers_last:
  "modifiers (analysis (foldl processLine st ls)) =
     (if filter isClassDeclarationLine (map trim ls) = [] then modifiers (analysis st)
      else modifierTokens classModifierWords (last (filter isClassDeclarationLine (map trim ls))))"
proof (induction ls arbitrary: st)
  case Nil
  show ?case by simp
next
  case (Cons l ls)
  show ?case
    unfolding foldl_Cons Cons.IH [of "processLine st l"] class_modifiers_step
    by simp
qed

lemma map_filter_source: "y \<in> set (List.map_filter f xs) \<Longrightarrow> \<exists>x \<in> set xs. f x = Some y"
  by (auto simp: List.map_filter_def)

lemma method_source_line:
  assumes "m \<in> set (methods (parseJavapOutput output cn))"
  shows "\<exists>t \<in> set (map trim (split output CHR 0x0A)).
           isMethodLine t \<and> methodModifiers m = fst (stripModifiers t [] 0)"
proof -
  let ?ps = "List.map_filter parseMethodFromJavap
     (filter (\<lambda>t. \<not> isClassDeclarationLine t \<and> isMethodLine t) (map trim (split output CHR 0x0A)))"
  have e: "map signatureOf (methods (parseJavapOutput output cn)) = map signatureOf ?ps"
    unfolding parseJavapOutput_def parseLines_def signatureOf_foldl
    by (simp add: initialState_def)
  from assms obtain i where i: "i < length (methods (parseJavapOutput output cn))"
    and mi: "methods (parseJavapOutput output cn) ! i = m"
    by (auto simp: in_set_conv_nth)
  have l: "length ?ps = length (methods (parseJavapOutput output cn))"
    using arg_cong [OF e, of length] by simp
  have "map signatureOf (methods (parseJavapOutput output cn)) ! i = map signatureOf ?ps ! i"
    by (simp only: e)
  then have s: "signatureOf m = signatureOf (?ps ! i)"
    using i l mi by simp
  have "?ps ! i \<in> set ?ps" using i l by simp
  then obtain t where t: "t \<in> set (filter (\<lambda>t. \<not> isClassDeclarationLine t \<and> isMethodLine t)
        (map trim (split output CHR 0x0A)))" and p: "parseMethodFromJavap t = Some (?ps ! i)"
    using map_filter_source [of "?ps ! i" parseMethodFromJavap] by blast
  from t have tm: "t \<in> set (map trim (split output CHR 0x0A))" and im: "isMethodLine t"
    by auto
  from tm have tt: "trim t = t" by (auto simp: trim_idem)
  have "methodModifiers (?ps ! i) = fst (stripModifiers t [] 0)"
    using parseMethodFromJavap_modifiers [OF p] tt by simp
  then have "methodModifiers m = fst (stripModifiers t [] 0)"
    using s by (simp add: signatureOf_def)
  with tm im show ?thesis by blast
qed

lemma method_modifiers_vocabulary:
  assumes "m \<in> set (methods (parseJavapOutput output cn))"
  shows "set (methodModifiers m) \<subseteq> set modifierWords"
proof -
  obtain t where "methodModifiers m = fst (stripModifiers t [] 0)"
    using method_source_line [OF assms] by blast
  then show ?thesis
    using stripModifiers_subset [of t "[]" 0] by simp
qed

lemma modifierWords_no_space: "w \<in> set modifierWords \<Longrightarrow> CHR '' '' \<notin> set w"
  by (auto simp: modifierWords_def)

lemma word_space_prefix:
  assumes "CHR '' '' \<notin> set w" "CHR '' '' \<notin> set m" "prefix (w @ '' '') (m @ '' '' @ t)"
  shows "w = m"
proof -
  from assms(3) obtain x where x: "m @ '' '' @ t = (w @ '' '') @ x" by (auto simp: prefix_def)
  have "takeWhile (\<lambda>c. c \<noteq> CHR '' '') (m @ '' '' @ t) = m"
    using assms(2) by (simp add: takeWhile_append)
  moreover have "takeWhile (\<lambda>c. c \<noteq> CHR '' '') ((w @ '' '') @ x) = w"
    using assms(1) by (simp add: takeWhile_append)
  ultimately show ?thesis using x by simp
qed

lemma find_first_modifier:
  assumes "m \<in> set modifierWords"
  shows "find (\<lambda>w. startsWith (m @ '' '' @ t) (w @ '' '')) modifierWords = Some m"
proof -
  have p: "startsWith (m @ '' '' @ t) (m @ '' '')" by (simp add: startsWith_def)
  have u: "w = m" if "w \<in> set modifierWords" "startsWith (m @ '' '' @ t) (w @ '' '')" for w
    using that assms word_space_prefix [of w m t] modifierWords_no_space
    by (simp add: startsWith_def)
  obtain y where y: "find (\<lambda>w. startsWith (m @ '' '' @ t) (w @ '' '')) modifierWords = Some y"
    using assms p by (cases "find (\<lambda>w. startsWith (m @ '' '' @ t) (w @ '' '')) modifierWords")
      (auto simp: find_None_iff)
  then have "y \<in> set modifierWords" "startsWith (m @ '' '' @ t) (y @ '' '')"
    by (auto simp: find_Some_iff)
  with u y show ?thesis by simp
qed

lemma stripModifiers_leading:
  assumes "set ms \<subseteq> set modifierWords" "\<forall>w \<in> set modifierWords. \<not> startsWith rest (w @ '' '')"
  shows "stripModifiers (concat (map (\<lambda>m. m @ '' '') ms) @ rest) acc k =
     (acc @ ms, k + length (concat (map (\<lambda>m. m @ '' '') ms)))"
  using assms(1)
proof (induction ms arbitrary: acc k)
  case Nil
  have "find (\<lambda>modifier. startsWith rest (modifier @ '' '')) modifierWords = None"
    using assms(2) by (simp add: find_None_iff)
  then show ?case by (subst stripModifiers.simps) simp
next
  case (Cons m ms)
  let ?t = "concat (map (\<lambda>m. m @ '' '') ms) @ rest"
  have f: "find (\<lambda>w. startsWith (m @ '' '' @ ?t) (w @ '' '')) modifierWords = Some m"
    using Cons.prems by (intro find_first_modifier) simp
  have "stripModifiers (m @ '' '' @ ?t) acc k =
      stripModifiers ?t (acc @ [m]) (k + (length m + 1))"
    by (subst stripModifiers.simps, subst f) simp
  also have "\<dots> = ((acc @ [m]) @ ms, (k + (length m + 1)) + length (concat (map (\<lambda>m. m @ '' '') ms)))"
    using Cons.prems by (intro Cons.IH) simp
  finally show ?case by simp
qed

section \<open>The subclass search tries every candidate\<close>

lemma findSubClassesLoop_log:
  "findSubClassesLoop (\<lambda>cls log. (outcome cls, log @ [cls])) cn cs acc log =
     (acc @ filter (\<lambda>cls. case outcome cls of Inl e \<Rightarrow> False | Inr a \<Rightarrow> superClass a = Some cn) cs,
      log @ cs)"
  by (induction cs arbitrary: acc log) (auto split: sum.splits)

text \<open>
  Claim C9. Let the analysis of a candidate either throw or return an analysis, and let
  the world record the candidates it was asked for. Then the search asks for every
  candidate, once and in order, whether or not earlier ones threw, and returns exactly the
  candidates whose analysis succeeded with the target as superclass.
\<close>

theorem subclass_search_isolates_failures:
  "findSubClasses (\<lambda>cls log. (outcome cls, log @ [cls])) cn allClasses [] =
     (filter (\<lambda>cls. case outcome cls of Inl e \<Rightarrow> False | Inr a \<Rightarrow> superClass a = Some cn)
        allClasses,
      allClasses)"
  by (simp add: findSubClasses_def findSubClassesLoop_log)

section \<open>A signature without a return type is dropped\<close>

text \<open>
  Claim C10. A line that passes the method test, and whose text between the stripped
  modifiers and the first \<open>(\<close> has no space once trimmed, makes method extraction return
  \<^verbatim>\<open>null\<close>; the methods list stays as it was, and the only effect of the line is that
  there is no current method any more.
\<close>

theorem constructor_line_dropped:
  assumes "isMethodLine (trim line)"
    and "indexOf (trim line) CHR ''('' = Some parenIndex"
    and "CHR '' '' \<notin> set (trim (substring (trim line)
            (snd (stripModifiers (trim line) [] 0)) parenIndex))"
  shows "parseMethodFromJavap (trim line) = None
       \<and> methods (analysis (processLine st line)) = methods (analysis st)
       \<and> (\<not> isClassDeclarationLine (trim line) \<longrightarrow>
            processLine st line = st\<lparr>currentMethod := None\<rparr>)"
proof -
  have "lastIndexOf (trim (substring (trim line)
            (snd (stripModifiers (trim line) [] 0)) parenIndex)) CHR '' '' = None"
    using assms(3) by (simp add: lastIndexOf_None_iff)
  then have n: "parseMethodFromJavap (trim line) = None"
    using assms(2)
    by (simp add: parseMethodFromJavap_def trim_idem Let_def case_prod_beta
        split: option.splits)
  then show ?thesis
    using assms(1) by (simp add: processLine_def Let_def methods_parseClassDeclaration)
qed

theorem constructor_line_dropped_witness:
  "parseMethodFromJavap (trim ''  public Foo();'') = None
   \<and> processLine (initialState ''Foo'') ''  public Foo();'' =
       (initialState ''Foo'')\<lparr>currentMethod := None\<rparr>"
proof -
  have a: "isMethodLine (trim ''  public Foo();'')" by code_simp
  have b: "indexOf (trim ''  public Foo();'') CHR ''('' = Some 10" by code_simp
  have c: "CHR '' '' \<notin> set (trim (substring (trim ''  public Foo();'')
            (snd (stripModifiers (trim ''  public Foo();'') [] 0)) 10))" by code_simp
  have d: "\<not> isClassDeclarationLine (trim ''  public Foo();'')" by code_simp
  show ?thesis
    using constructor_line_dropped [OF a b c, of "initialState ''Foo''"] d by blast
qed

section \<open>Pending names at the next method signature\<close>

text \<open>
  Claim C2, evaluated on a text where the signature of \<^verbatim>\<open>b\<close> follows a table row of
  \<^verbatim>\<open>a\<close> without a blank line: the recorded name \<^verbatim>\<open>x\<close> is dropped, the parameter of
  \<^verbatim>\<open>a\<close> stays the bare type. The signature line takes the \<^verbatim>\<open>continue\<close> of the method
  branch, so the end-of-method test behind it, which names the next signature as one of
  its cases, is never reached for it.
\<close>

theorem pending_names_discarded_at_next_method:
  "methods (parseJavapOutput
      ''public void a(int);\<newline>LocalVariableTable:\<newline>0 1 0 x I\<newline>public void b();'' ''Foo'') =
     [\<lparr>name = ''a'', returnType = ''void'', parameters = [''int''], methodModifiers = [''public'']\<rparr>,
      \<lparr>name = ''b'', returnType = ''void'', parameters = [], methodModifiers = [''public'']\<rparr>]"
  by code_simp

section \<open>Table rows beyond the parameters\<close>

text \<open>
  Claim C5. A line that is a row of the variable table changes nothing but the pending
  names, and those only inside a table of a current method and when its slot is below the
  parameter count of that method; so a row whose slot is at or beyond the count can be
  deleted from the text without changing the result of the parse. At every point of the
  scan all recorded slots are parameter positions of the current method.
\<close>

theorem slot_boundary_exclusion:
  "(matchVariableRow (trim line) = Some (slotText, rowName) \<longrightarrow>
      processLine st line =
        (if inLocalVariableTable st \<and>
            (\<exists>i. currentMethod st = Some i \<and>
                 parseInt slotText < length (parameters (methods (analysis st) ! i)))
         then st\<lparr>methodParameters := (parseInt slotText, rowName) # methodParameters st\<rparr>
         else st))
   \<and> (matchVariableRow (trim line) = Some (slotText, rowName) \<and>
        currentMethod (parseLines pre cn) = Some j \<and>
        length (parameters (methods (analysis (parseLines pre cn)) ! j)) \<le> parseInt slotText \<longrightarrow>
        parseLines (pre @ line # post) cn = parseLines (pre @ post) cn)
   \<and> pendingInRange (parseLines ls cn)"
proof -
  have "parseLines (pre @ line # post) cn = parseLines (pre @ post) cn"
    if r: "matchVariableRow (trim line) = Some (slotText, rowName)"
      and c: "currentMethod (parseLines pre cn) = Some j"
      and o: "length (parameters (methods (analysis (parseLines pre cn)) ! j)) \<le> parseInt slotText"
  proof -
    have "processLine (parseLines pre cn) line = parseLines pre cn"
      using processLine_row [OF r, of "parseLines pre cn"] c o by simp
    then show ?thesis by (simp add: parseLines_def)
  qed
  then show ?thesis
    using processLine_row pendingInRange_parseLines by blast
qed

theorem slot_boundary_exclusion_witness:
  "matchVariableRow (trim ''   0   1   5   tmp   I'') = Some (''5'', ''tmp'')
   \<and> currentMethod (parseLines [''public void a(int);'', ''LocalVariableTable:''] ''Foo'') = Some 0
   \<and> parseLines ([''public void a(int);'', ''LocalVariableTable:''] @
         ''   0   1   5   tmp   I'' # [''   0   1   0   x   I'', [], ''}'']) ''Foo''
     = parseLines ([''public void a(int);'', ''LocalVariableTable:''] @
         [''   0   1   0   x   I'', [], ''}'']) ''Foo''
   \<and> pendingInRange (parseLines
         [''public void a(int);'', ''LocalVariableTable:'', ''   0   1   0   x   I''] ''Foo'')
   \<and> methodParameters (parseLines
         [''public void a(int);'', ''LocalVariableTable:'', ''   0   1   0   x   I''] ''Foo'') = [(0, ''x'')]"
proof -
  have a: "matchVariableRow (trim ''   0   1   5   tmp   I'') = Some (''5'', ''tmp'')" by code_simp
  have b: "currentMethod (parseLines [''public void a(int);'', ''LocalVariableTable:''] ''Foo'') = Some 0"
    by code_simp
  have c: "length (parameters (methods (analysis
             (parseLines [''public void a(int);'', ''LocalVariableTable:''] ''Foo'')) ! 0)) \<le> parseInt ''5''"
    by code_simp
  have d: "methodParameters (parseLines
         [''public void a(int);'', ''LocalVariableTable:'', ''   0   1   0   x   I''] ''Foo'') = [(0, ''x'')]"
    by code_simp
  show ?thesis
    using slot_boundary_exclusion [of "''   0   1   5   tmp   I''" "''5''" "''tmp''" _
        "[''public void a(int);'', ''LocalVariableTable:'']" "''Foo''" 0
        "[''   0   1   0   x   I'', [], ''}'']"
        "[''public void a(int);'', ''LocalVariableTable:'', ''   0   1   0   x   I'']"]
      a b c d by blast
qed


section \<open>Which lines start a method\<close>

text \<open>
  Claim C4, as the code has it. A line that starts with \<^verbatim>\<open>public\<close> and a space, but not
  with \<^verbatim>\<open>public class\<close>, \<^verbatim>\<open>public interface\<close> or \<^verbatim>\<open>public enum\<close>, that has a \<open>)\<close>
  behind its first \<open>(\<close> and a space in the trimmed text between the stripped modifiers
  and the \<open>(\<close>, appends one method, which becomes the current method with an empty
  pending map. A line that does not start with \<^verbatim>\<open>public\<close> and a space, one that starts
  with \<^verbatim>\<open>private\<close> or \<^verbatim>\<open>protected\<close> among them, leaves the number of methods as it is.
\<close>

theorem public_method_line_appended:
  "(startsWith (trim line) ''public '' \<and> \<not> isClassDeclarationLine (trim line) \<and>
     indexOf (trim line) CHR ''('' = Some parenIndex \<and>
     indexOfFrom (trim line) CHR '')'' parenIndex = Some closeParenIndex \<and>
     CHR '' '' \<in> set (trim (substring (trim line)
                        (snd (stripModifiers (trim line) [] 0)) parenIndex)) \<longrightarrow>
     (\<exists>m. parseMethodFromJavap (trim line) = Some m \<and>
          processLine st line =
            st\<lparr>analysis := (analysis st)\<lparr>methods := methods (analysis st) @ [m]\<rparr>,
               currentMethod := Some (length (methods (analysis st))),
               methodParameters := []\<rparr>))
   \<and> (\<not> startsWith (trim line) ''public '' \<longrightarrow>
        length (methods (analysis (processLine st line))) = length (methods (analysis st)))"
proof -
  have "\<exists>m. parseMethodFromJavap (trim line) = Some m \<and>
          processLine st line =
            st\<lparr>analysis := (analysis st)\<lparr>methods := methods (analysis st) @ [m]\<rparr>,
               currentMethod := Some (length (methods (analysis st))),
               methodParameters := []\<rparr>"
    if p: "startsWith (trim line) ''public ''" and d: "\<not> isClassDeclarationLine (trim line)"
      and o: "indexOf (trim line) CHR ''('' = Some parenIndex"
      and c: "indexOfFrom (trim line) CHR '')'' parenIndex = Some closeParenIndex"
      and s: "CHR '' '' \<in> set (trim (substring (trim line)
                        (snd (stripModifiers (trim line) [] 0)) parenIndex))"
  proof -
    obtain i where i: "lastIndexOf (trim (substring (trim line)
                        (snd (stripModifiers (trim line) [] 0)) parenIndex)) CHR '' '' = Some i"
      using lastIndexOf_Some [OF s] by blast
    have "\<exists>m. parseMethodFromJavap (trim line) = Some m"
      using o c i by (simp add: parseMethodFromJavap_def trim_idem Let_def case_prod_beta)
    then obtain m where m: "parseMethodFromJavap (trim line) = Some m" by blast
    have "isMethodLine (trim line)"
      using p indexOf_Some_mem [OF o] indexOfFrom_Some_mem [OF c]
      by (simp add: isMethodLine_def includesChar_def)
    then show ?thesis
      using d m by (simp add: processLine_def Let_def)
  qed
  then show ?thesis
    using length_methods_not_public by blast
qed

theorem public_method_line_appended_witness:
  "methods (analysis (processLine (initialState ''Foo'') ''  public static int size(java.util.List<T>);''))
     = [\<lparr>name = ''size'', returnType = ''int'', parameters = [''java.util.List<T>''],
         methodModifiers = [''public'', ''static'']\<rparr>]
   \<and> \<not> startsWith (trim ''  protected void run();'') ''public ''
   \<and> length (methods (analysis (processLine (initialState ''Foo'') ''  protected void run();''))) = 0"
proof -
  let ?l = "''  public static int size(java.util.List<T>);''"
  have a: "startsWith (trim ?l) ''public ''" by code_simp
  have b: "\<not> isClassDeclarationLine (trim ?l)" by code_simp
  have c: "indexOf (trim ?l) CHR ''('' = Some 22" by code_simp
  have d: "indexOfFrom (trim ?l) CHR '')'' 22 = Some 40" by code_simp
  have e: "CHR '' '' \<in> set (trim (substring (trim ?l) (snd (stripModifiers (trim ?l) [] 0)) 22))"
    by code_simp
  have f: "parseMethodFromJavap (trim ?l) = Some \<lparr>name = ''size'', returnType = ''int'',
         parameters = [''java.util.List<T>''], methodModifiers = [''public'', ''static'']\<rparr>"
    by code_simp
  have g: "\<not> startsWith (trim ''  protected void run();'') ''public ''" by code_simp
  have h: "methods (analysis (initialState ''Foo'')) = []" by code_simp
  from public_method_line_appended [of ?l 22 40 "initialState ''Foo''"] a b c d e f
  have "methods (analysis (processLine (initialState ''Foo'') ?l)) =
      methods (analysis (initialState ''Foo'')) @ [\<lparr>name = ''size'', returnType = ''int'',
         parameters = [''java.util.List<T>''], methodModifiers = [''public'', ''static'']\<rparr>]"
    by auto
  moreover from public_method_line_appended [of "''  protected void run();''" _ _ "initialState ''Foo''"] g
  have "length (methods (analysis (processLine (initialState ''Foo'') ''  protected void run();'')))
      = length (methods (analysis (initialState ''Foo'')))" by blast
  ultimately show ?thesis using g h by simp
qed

text \<open>
  Claim C4 as stated fails on a \<^verbatim>\<open>private\<close> signature: the line starts with an access
  modifier and has \<open>(\<close> followed by \<open>)\<close>, and no method is appended. It fails as well
  on a \<^verbatim>\<open>public\<close> line without a return type, and on a \<^verbatim>\<open>public\<close> line whose return
  type starts with the letters of \<^verbatim>\<open>enum\<close>.
\<close>

theorem private_method_line_not_extracted:
  "startsWith (trim ''private void run(int);'') ''private ''
   \<and> indexOf (trim ''private void run(int);'') CHR ''('' = Some 16
   \<and> indexOfFrom (trim ''private void run(int);'') CHR '')'' 16 = Some 20
   \<and> methods (analysis (processLine (initialState ''Foo'') ''private void run(int);'')) = []
   \<and> methods (parseJavapOutput ''private void run(int);'' ''Foo'') = []
   \<and> methods (parseJavapOutput ''public Foo();'' ''Foo'') = []
   \<and> methods (parseJavapOutput ''public enums.Color get(int);'' ''Foo'') = []"
  by code_simp

section \<open>A text without a declaration line\<close>




section \<open>When the parameter names are written\<close>




section \<open>The modifiers lists\<close>

text \<open>
  Claim C8, as the code has it. When the last line of the text that starts with
  \<^verbatim>\<open>public class\<close>, \<^verbatim>\<open>public interface\<close> or \<^verbatim>\<open>public enum\<close> has a space behind that
  keyword, the modifiers of the result are the modifier tokens of that line, in the order
  of the line and with repetitions. The modifiers of every method of the result are the
  leading words of the method vocabulary, each followed by a space, of a method line of
  the text, in the order of the line and with repetitions: on a line that is a list of
  such words followed by a text that starts with none of them, they are that list. In
  every result the modifiers of the class are words of the class vocabulary and the
  modifiers of every method are words of the method vocabulary.
\<close>

theorem modifiers_follow_the_line:
  "(filter isClassDeclarationLine (map trim (split output CHR 0x0A)) \<noteq> [] \<and>
      (startsWith (last (filter isClassDeclarationLine (map trim (split output CHR 0x0A))))
         ''public class '' \<or>
       startsWith (last (filter isClassDeclarationLine (map trim (split output CHR 0x0A))))
         ''public interface '' \<or>
       startsWith (last (filter isClassDeclarationLine (map trim (split output CHR 0x0A))))
         ''public enum '') \<longrightarrow>
      modifiers (parseJavapOutput output cn) =
        modifierTokens classModifierWords
          (last (filter isClassDeclarationLine (map trim (split output CHR 0x0A)))))
   \<and> (\<forall>m \<in> set (methods (parseJavapOutput output cn)).
         \<exists>t \<in> set (map trim (split output CHR 0x0A)).
           isMethodLine t \<and> methodModifiers m = fst (stripModifiers t [] 0))
   \<and> (set ms \<subseteq> set modifierWords \<and> (\<forall>w \<in> set modifierWords. \<not> startsWith rest (w @ '' '')) \<longrightarrow>
         stripModifiers (concat (map (\<lambda>m. m @ '' '') ms) @ rest) [] 0 =
           (ms, length (concat (map (\<lambda>m. m @ '' '') ms))))
   \<and> set (modifiers (parseJavapOutput output cn)) \<subseteq> set classModifierWords
   \<and> (\<forall>m \<in> set (methods (parseJavapOutput output cn)).
         set (methodModifiers m) \<subseteq> set modifierWords)"
proof -
  have a: "modifiers (parseJavapOutput output cn) =
        modifierTokens classModifierWords
          (last (filter isClassDeclarationLine (map trim (split output CHR 0x0A))))"
    if "filter isClassDeclarationLine (map trim (split output CHR 0x0A)) \<noteq> []"
    using that
    by (simp add: parseJavapOutput_def parseLines_def class_modifiers_last)
  have b: "set (modifiers (parseJavapOutput output cn)) \<subseteq> set classModifierWords"
    unfolding parseJavapOutput_def parseLines_def
    by (rule class_modifiers_foldl) (simp add: initialState_def)
  have d: "stripModifiers (concat (map (\<lambda>m. m @ '' '') ms) @ rest) [] 0 =
           (ms, length (concat (map (\<lambda>m. m @ '' '') ms)))"
    if "set ms \<subseteq> set modifierWords" "\<forall>w \<in> set modifierWords. \<not> startsWith rest (w @ '' '')"
    using stripModifiers_leading [OF that, of "[]" 0] by simp
  have c: "\<forall>m \<in> set (methods (parseJavapOutput output cn)).
         \<exists>t \<in> set (map trim (split output CHR 0x0A)).
           isMethodLine t \<and> methodModifiers m = fst (stripModifiers t [] 0)"
    using method_source_line by blast
  have e: "\<forall>m \<in> set (methods (parseJavapOutput output cn)).
         set (methodModifiers m) \<subseteq> set modifierWords"
    using method_modifiers_vocabulary by blast
  show ?thesis using a b c d e by blast
qed

theorem modifiers_follow_the_line_witness:
  "modifiers (parseJavapOutput
      ''public class com.acme.Foo extends com.acme.Bar {\<newline>  public static int size(java.util.List<T>);\<newline>}''
      ''com.acme.Foo'') = [''public'']
   \<and> set (methodModifiers \<lparr>name = ''size'', returnType = ''int'',
         parameters = [''java.util.List<T>''], methodModifiers = [''public'', ''static'']\<rparr>)
       \<subseteq> set modifierWords
   \<and> stripModifiers ''public static int size();'' [] 0 = ([''public'', ''static''], 14)"
proof -
  let ?m = "\<lparr>name = ''size'', returnType = ''int'', parameters = [''java.util.List<T>''],
         methodModifiers = [''public'', ''static'']\<rparr>"
  let ?out = "''public class com.acme.Foo extends com.acme.Bar {\<newline>  public static int size(java.util.List<T>);\<newline>}''"
  let ?ds = "filter isClassDeclarationLine (map trim (split ?out CHR 0x0A))"
  note t = modifiers_follow_the_line
    [of ?out "''com.acme.Foo''" "[''public'', ''static'']" "''int size();''"]
  have h0: "?ds \<noteq> [] \<and>
      (startsWith (last ?ds) ''public class '' \<or> startsWith (last ?ds) ''public interface '' \<or>
       startsWith (last ?ds) ''public enum '')" by code_simp
  have e: "modifierTokens classModifierWords (last ?ds) = [''public'']" by code_simp
  have a: "modifiers (parseJavapOutput ?out ''com.acme.Foo'') = [''public'']"
    using t [THEN conjunct1, THEN mp, OF h0] unfolding e .
  have h1: "?m \<in> set (methods (parseJavapOutput ?out ''com.acme.Foo''))" by code_simp
  have b: "set (methodModifiers ?m) \<subseteq> set modifierWords"
    using t [THEN conjunct2, THEN conjunct2, THEN conjunct2, THEN conjunct2, THEN bspec, OF h1] .
  have h3: "set [''public'', ''static''] \<subseteq> set modifierWords \<and>
      (\<forall>w \<in> set modifierWords. \<not> startsWith ''int size();'' (w @ '' ''))" by code_simp
  have "stripModifiers (concat (map (\<lambda>m. m @ '' '') [''public'', ''static'']) @ ''int size();'') [] 0 =
      ([''public'', ''static''], length (concat (map (\<lambda>m. m @ '' '') [''public'', ''static''])))"
    using t [THEN conjunct2, THEN conjunct2, THEN conjunct1, THEN mp, OF h3] .
  then have c: "stripModifiers ''public static int size();'' [] 0 = ([''public'', ''static''], 14)"
    by simp
  from a b c show ?thesis by (intro conjI)
qed

text \<open>
  Claim C8 as stated fails in three ways. A modifier written twice is stored twice, in a
  method as in a class declaration. A declaration line with a modifier between
  \<^verbatim>\<open>public\<close> and the keyword is not taken for a declaration line, and the modifiers
  stay empty. On a method line \<^verbatim>\<open>strictfp\<close> is no modifier word.
\<close>

theorem repeated_modifier_kept:
  "map methodModifiers (methods (parseJavapOutput ''public static static void f();'' ''Foo'')) =
     [[''public'', ''static'', ''static'']]
   \<and> \<not> distinct [''public'', ''static'', ''static'']
   \<and> modifiers (parseJavapOutput ''public class final.Foo extends final.Bar {'' ''Foo'') =
       [''public'', ''final'', ''final'']
   \<and> modifiers (parseJavapOutput ''public final class com.acme.Foo extends com.acme.Bar {'' ''Foo'') = []
   \<and> map methodModifiers (methods (parseJavapOutput ''public strictfp void f();'' ''Foo'')) =
       [[''public'']]"
  by code_simp

end
